theory Spec2Isabelle
  imports Complex_Main
begin

section \<open>Batch container statistics (src/hooks/useBatchContainerStats.ts)\<close>

text \<open>
  The uniform response envelope of \<^verbatim>\<open>src/lib/api.ts\<close>:
  \<^verbatim>\<open>{ success: boolean; data?: T; error?: string }\<close>. An optional field that is
  absent is \<open>None\<close>. One element of the array returned by \<^verbatim>\<open>getBatchStats\<close> is an
  envelope that also carries the container identifier \<^verbatim>\<open>id\<close>.
\<close>

record 'a envelope =
  success :: bool
  data :: "'a option"
  error :: "string option"

record 'a id_envelope = "'a envelope" +
  res_id :: string

text \<open>
  \<^verbatim>\<open>interface StatsResponse\<close>, flattened: each field is named after its path. A
  TypeScript \<^verbatim>\<open>number\<close> is modelled as a real number (the counters are finite; the
  rounding of IEEE doubles is not modelled). \<^verbatim>\<open>memory_stats.stats?: { cache?: number }\<close>
  is \<open>None\<close> when \<^verbatim>\<open>stats\<close> is absent and \<open>Some None\<close> when \<^verbatim>\<open>stats\<close> is there
  without \<^verbatim>\<open>cache\<close>.
\<close>

record StatsResponse =
  cpu_stats_total_usage :: real
  cpu_stats_system_cpu_usage :: real
  cpu_stats_online_cpus :: "real option"
  precpu_stats_total_usage :: real
  precpu_stats_percpu_usage :: "real list option"
  precpu_stats_system_cpu_usage :: real
  memory_stats_usage :: real
  memory_stats_stats :: "real option option"

record ContainerStats =
  cpu :: string
  mem :: string

text \<open>
  JavaScript's \<^verbatim>\<open>a || b\<close> on values of type \<^verbatim>\<open>number | undefined\<close>: the left operand
  when it is truthy (present and not zero), the right operand otherwise.
\<close>

definition js_or :: "real option \<Rightarrow> real option \<Rightarrow> real option" where
  "js_or a b = (case a of None \<Rightarrow> b | Some x \<Rightarrow> if x \<noteq> 0 then Some x else b)"

definition js_or_num :: "real option \<Rightarrow> real \<Rightarrow> real" where
  "js_or_num a d = (case a of None \<Rightarrow> d | Some x \<Rightarrow> if x \<noteq> 0 then x else d)"

text \<open>\<^verbatim>\<open>xs?.length\<close>: undefined when the array is absent.\<close>

definition opt_length :: "real list option \<Rightarrow> real option" where
  "opt_length xs = map_option (\<lambda>ys. real (length ys)) xs"

definition cpuDelta :: "StatsResponse \<Rightarrow> real" where
  "cpuDelta s = cpu_stats_total_usage s - precpu_stats_total_usage s"

definition systemDelta :: "StatsResponse \<Rightarrow> real" where
  "systemDelta s = cpu_stats_system_cpu_usage s - precpu_stats_system_cpu_usage s"

text \<open>
  \<^verbatim>\<open>s.cpu_stats.online_cpus || s.precpu_stats.cpu_usage.percpu_usage?.length || 1\<close>
\<close>

definition numberCpus :: "StatsResponse \<Rightarrow> real" where
  "numberCpus s =
     js_or_num (js_or (cpu_stats_online_cpus s) (opt_length (precpu_stats_percpu_usage s))) 1"

text \<open>
  \<^verbatim>\<open>let cpuPercent = 0.0; if (systemDelta > 0.0 && cpuDelta > 0.0) cpuPercent = ...\<close>
\<close>

definition cpuPercent :: "StatsResponse \<Rightarrow> real" where
  "cpuPercent s =
     (if systemDelta s > 0 \<and> cpuDelta s > 0
      then (cpuDelta s / systemDelta s) * numberCpus s * 100
      else 0)"

text \<open>\<^verbatim>\<open>s.memory_stats.usage - (s.memory_stats.stats?.cache || 0)\<close>\<close>

definition memUsage :: "StatsResponse \<Rightarrow> real" where
  "memUsage s =
     memory_stats_usage s
       - js_or_num (case memory_stats_stats s of None \<Rightarrow> None | Some c \<Rightarrow> c) 0"

text \<open>
  The body of the \<^verbatim>\<open>forEach\<close> callback: the value stored under \<^verbatim>\<open>res.id\<close>. The two
  formatters are not code of this repository (\<^verbatim>\<open>Number.prototype.toFixed\<close> with two
  digits and the \<^verbatim>\<open>byte-size\<close> package) and are parameters: \<open>toFixed2\<close> and \<open>byteSize\<close>.
\<close>

definition statsEntry ::
  "(real \<Rightarrow> string) \<Rightarrow> (real \<Rightarrow> string) \<Rightarrow> StatsResponse id_envelope \<Rightarrow> ContainerStats" where
  "statsEntry toFixed2 byteSize res =
     (case data res of
        Some s \<Rightarrow>
          if success res
          then \<lparr>cpu = toFixed2 (cpuPercent s) @ ''%'', mem = byteSize (memUsage s)\<rparr>
          else \<lparr>cpu = ''0%'', mem = ''0 B''\<rparr>
      | None \<Rightarrow> \<lparr>cpu = ''0%'', mem = ''0 B''\<rparr>)"

text \<open>
  \<^verbatim>\<open>const statsMap = {}; result.data.forEach((res) => { statsMap[res.id] = ... })\<close>:
  a later element with the same \<^verbatim>\<open>id\<close> overwrites an earlier one.
\<close>

definition statsMap ::
  "(real \<Rightarrow> string) \<Rightarrow> (real \<Rightarrow> string) \<Rightarrow> StatsResponse id_envelope list
     \<Rightarrow> (string \<rightharpoonup> ContainerStats)" where
  "statsMap toFixed2 byteSize rs =
     fold (\<lambda>res m. m(res_id res \<mapsto> statsEntry toFixed2 byteSize res)) rs Map.empty"

text \<open>
  \<^verbatim>\<open>fetchAllStats\<close>, given the resolved value of \<^verbatim>\<open>api.getBatchStats(containerIds)\<close>
  and the current React state \<^verbatim>\<open>allStats\<close>; the result is the state afterwards.
  \<^verbatim>\<open>if (!result.success || !result.data) return;\<close> leaves the state as it was.
\<close>

definition fetchAllStats ::
  "(real \<Rightarrow> string) \<Rightarrow> (real \<Rightarrow> string) \<Rightarrow> StatsResponse id_envelope list envelope
     \<Rightarrow> (string \<rightharpoonup> ContainerStats) \<Rightarrow> (string \<rightharpoonup> ContainerStats)" where
  "fetchAllStats toFixed2 byteSize result allStats =
     (case data result of
        None \<Rightarrow> allStats
      | Some rs \<Rightarrow> if success result then statsMap toFixed2 byteSize rs else allStats)"

text \<open>
  \<^verbatim>\<open>getBatchStats: async (ids) => invoke("get_batch_stats", { ids })\<close>: the value the
  backend command resolves to is passed through unchanged. The command is the
  parameter \<open>invoke_get_batch_stats\<close>.
\<close>

definition getBatchStats ::
  "(string list \<Rightarrow> StatsResponse id_envelope list envelope) \<Rightarrow> string list
     \<Rightarrow> StatsResponse id_envelope list envelope" where
  "getBatchStats invoke_get_batch_stats ids = invoke_get_batch_stats ids"

text \<open>
  One run of the effect of \<^verbatim>\<open>useBatchContainerStats\<close> (the first call of
  \<^verbatim>\<open>fetchAllStats\<close>, or one tick of the two-second interval):
  \<^verbatim>\<open>if (!containerIds.length) { setAllStats({}); return; }\<close>, otherwise
  \<^verbatim>\<open>fetchAllStats()\<close>.
\<close>

definition useBatchContainerStats ::
  "(real \<Rightarrow> string) \<Rightarrow> (real \<Rightarrow> string)
     \<Rightarrow> (string list \<Rightarrow> StatsResponse id_envelope list envelope)
     \<Rightarrow> string list \<Rightarrow> (string \<rightharpoonup> ContainerStats) \<Rightarrow> (string \<rightharpoonup> ContainerStats)" where
  "useBatchContainerStats toFixed2 byteSize invoke_get_batch_stats containerIds allStats =
     (if containerIds = [] then Map.empty
      else fetchAllStats toFixed2 byteSize
             (getBatchStats invoke_get_batch_stats containerIds) allStats)"

subsection \<open>The backend command \<^verbatim>\<open>get_batch_stats\<close>\<close>

text \<open>
  Modelled from the spec: the backend command \<^verbatim>\<open>get_batch_stats\<close> (the Batch Stats
  Collector), whose implementation is not among the TypeScript sources; only its caller
  \<^verbatim>\<open>getBatchStats\<close> is. The spec's words: the input is a set of container identifiers,
  ``duplicates tolerated and deduplicated''; the output is a sequence of per-container
  results, ``each independently success/failure, preserving a mapping back to the
  requested identifier''; a per-identifier failure ``is captured as an error entry for
  that identifier alone'' and never escalates ``to a whole-batch failure''. The runtime's
  \<^verbatim>\<open>stats(id)\<close> call is the parameter \<open>stats\<close>: \<open>Inl\<close> is its error message.
\<close>

definition stats_result :: "string \<Rightarrow> string + StatsResponse \<Rightarrow> StatsResponse id_envelope" where
  "stats_result i r =
     (case r of
        Inl e \<Rightarrow> \<lparr>success = False, data = None, error = Some e, res_id = i\<rparr>
      | Inr s \<Rightarrow> \<lparr>success = True, data = Some s, error = None, res_id = i\<rparr>)"

definition get_batch_stats ::
  "(string \<Rightarrow> string + StatsResponse) \<Rightarrow> string list \<Rightarrow> StatsResponse id_envelope list envelope" where
  "get_batch_stats stats ids =
     \<lparr>success = True,
      data = Some (map (\<lambda>i. stats_result i (stats i)) (remdups ids)),
      error = None\<rparr>"

section \<open>The command surface (src/lib/api.ts, interface AppApi and const api)\<close>


















section \<open>Streaming sessions (src/lib/api.ts: startLogs, startExec, pullImage)\<close>

text \<open>
  The commands the three functions send with \<^verbatim>\<open>invoke\<close>, each with its arguments in
  the order of the source's argument object.
\<close>

record log_options =
  timestamps :: "bool option"

datatype backend_command =
    start_logs string string log_options
  | stop_logs string
  | start_exec string string
  | exec_input string string
  | stop_exec string
  | pull_image string string
  | stop_pull string

text \<open>
  What a session does that the outside can observe, in the order it happens: the call
  of \<^verbatim>\<open>listen(eventName, handler)\<close>, a call of the function \<^verbatim>\<open>listen\<close> resolved to
  (\<^verbatim>\<open>cleanup()\<close>, which is also \<^verbatim>\<open>unlisten()\<close>), a command sent with \<^verbatim>\<open>invoke\<close>, and the
  calls of the caller's callbacks. \<open>'p\<close> is the type of an event payload.
\<close>

datatype 'p action =
    Listen string
  | Unlisten
  | Invoke backend_command
  | OnData 'p
  | OnProgress 'p
  | OnEnd "unit envelope"
  | OnError string

text \<open>
  What happens to a session, one event loop turn at a time: the promise of
  \<^verbatim>\<open>listen\<close> settles, the transport calls the handler with a payload, the promise of
  the start command settles (a thrown value is its \<^verbatim>\<open>toString()\<close>), or the caller calls
  a function of the returned handle. The model does not restrict when the transport
  calls the handler: \<open>Emitted\<close> may come before \<^verbatim>\<open>listen\<close> resolves and after
  \<^verbatim>\<open>cleanup()\<close>. \<open>Cancel\<close> is the function returned by
  \<^verbatim>\<open>startLogs\<close> and \<^verbatim>\<open>pullImage\<close>; \<open>Write\<close>, \<open>Resize\<close> and \<open>Dispose\<close> are the methods of
  the object returned by \<^verbatim>\<open>startExec\<close>.
\<close>

datatype 'p event =
    ListenResolved
  | ListenRejected string
  | Emitted 'p
  | InvokeResolved "unit envelope"
  | InvokeRejected string
  | Cancel
  | Write string
  | Resize real real
  | Dispose

text \<open>Where the async function \<^verbatim>\<open>setup\<close> is suspended, or that it has ended.\<close>

datatype setup_phase = AwaitListen | AwaitInvoke | SetupDone

text \<open>
  The closure's variables: \<^verbatim>\<open>active\<close>, and whether \<^verbatim>\<open>unlisten\<close> has been assigned. The
  field \<open>setup_at\<close> is the program counter of \<^verbatim>\<open>setup\<close>. The field \<open>listening\<close> is not a
  variable of the source: it records that \<^verbatim>\<open>listen\<close> has been called, has not been
  rejected, and its \<^verbatim>\<open>cleanup\<close> has not been called yet.
\<close>

record session =
  active :: bool
  unlisten :: bool
  setup_at :: setup_phase
  listening :: bool

definition session_init :: session where
  "session_init = \<lparr>active = True, unlisten = False, setup_at = AwaitListen, listening = True\<rparr>"

text \<open>Running a step function over a list of events: the last state and all actions.\<close>

primrec run_state :: "('s \<Rightarrow> 'e \<Rightarrow> 's \<times> 'a list) \<Rightarrow> 's \<Rightarrow> 'e list \<Rightarrow> 's" where
  "run_state step s [] = s"
| "run_state step s (e # es) = run_state step (fst (step s e)) es"

primrec run_trace :: "('s \<Rightarrow> 'e \<Rightarrow> 's \<times> 'a list) \<Rightarrow> 's \<Rightarrow> 'e list \<Rightarrow> 'a list" where
  "run_trace step s [] = []"
| "run_trace step s (e # es) = snd (step s e) @ run_trace step (fst (step s e)) es"

subsection \<open>startLogs\<close>

text \<open>\<^verbatim>\<open>options || {}\<close>\<close>

definition options_or_empty :: "log_options option \<Rightarrow> log_options" where
  "options_or_empty options = (case options of None \<Rightarrow> \<lparr>timestamps = None\<rparr> | Some opts \<Rightarrow> opts)"

text \<open>
  One turn of a session of \<^verbatim>\<open>startLogs(id, onData, options)\<close>; \<open>sessionId\<close> is the
  identifier drawn with \<^verbatim>\<open>Math.random\<close>. An event that cannot happen in the state (a
  promise settling twice, a method the handle does not have) changes nothing.
\<close>

fun startLogs_step ::
  "string \<Rightarrow> string \<Rightarrow> log_options option \<Rightarrow> session \<Rightarrow> string event
     \<Rightarrow> session \<times> string action list" where
  "startLogs_step id' sessionId options s ListenResolved =
     (if setup_at s = AwaitListen
      then (if active s
            then (s\<lparr>unlisten := True, setup_at := AwaitInvoke\<rparr>,
                  [Invoke (start_logs id' sessionId (options_or_empty options))])
            else (s\<lparr>unlisten := True, setup_at := SetupDone, listening := False\<rparr>, [Unlisten]))
      else (s, []))"
| "startLogs_step id' sessionId options s (ListenRejected e) =
     (if setup_at s = AwaitListen then (s\<lparr>setup_at := SetupDone, listening := False\<rparr>, []) else (s, []))"
| "startLogs_step id' sessionId options s (Emitted payload) =
     (s, if active s then [OnData payload] else [])"
| "startLogs_step id' sessionId options s (InvokeResolved res) =
     (if setup_at s = AwaitInvoke then (s\<lparr>setup_at := SetupDone\<rparr>, []) else (s, []))"
| "startLogs_step id' sessionId options s (InvokeRejected e) =
     (if setup_at s = AwaitInvoke then (s\<lparr>setup_at := SetupDone\<rparr>, []) else (s, []))"
| "startLogs_step id' sessionId options s Cancel =
     (if unlisten s
      then (s\<lparr>active := False, listening := False\<rparr>, [Unlisten, Invoke (stop_logs sessionId)])
      else (s\<lparr>active := False\<rparr>, [Invoke (stop_logs sessionId)]))"
| "startLogs_step id' sessionId options s (Write d) = (s, [])"
| "startLogs_step id' sessionId options s (Resize w h) = (s, [])"
| "startLogs_step id' sessionId options s Dispose = (s, [])"

text \<open>
  \<^verbatim>\<open>startLogs\<close> itself runs \<^verbatim>\<open>setup()\<close> up to its first \<^verbatim>\<open>await\<close>, which calls
  \<^verbatim>\<open>listen\<close> on the channel \<^verbatim>\<open>logs-${sessionId}\<close>, and returns the cancel function; the
  events that follow are the argument \<open>events\<close>.
\<close>

definition startLogs ::
  "string \<Rightarrow> string \<Rightarrow> log_options option \<Rightarrow> string event list \<Rightarrow> session \<times> string action list" where
  "startLogs id' sessionId options events =
     (run_state (startLogs_step id' sessionId options) session_init events,
      Listen (''logs-'' @ sessionId)
        # run_trace (startLogs_step id' sessionId options) session_init events)"

subsection \<open>startExec\<close>

text \<open>
  One turn of a session of \<^verbatim>\<open>startExec(sessionId, _cols, _rows, onData, containerId)\<close>.
  The arguments \<^verbatim>\<open>_cols\<close> and \<^verbatim>\<open>_rows\<close> are not used by the source. The body of
  \<^verbatim>\<open>resize\<close> is a comment only:
  \<^verbatim>\<open>// Resize not implemented yet - would require exec resize in Docker\<close>.
\<close>

fun startExec_step ::
  "string \<Rightarrow> string \<Rightarrow> session \<Rightarrow> string event \<Rightarrow> session \<times> string action list" where
  "startExec_step sessionId containerId s ListenResolved =
     (if setup_at s = AwaitListen
      then (if active s
            then (s\<lparr>unlisten := True, setup_at := AwaitInvoke\<rparr>,
                  [Invoke (start_exec sessionId containerId)])
            else (s\<lparr>unlisten := True, setup_at := SetupDone, listening := False\<rparr>, [Unlisten]))
      else (s, []))"
| "startExec_step sessionId containerId s (ListenRejected e) =
     (if setup_at s = AwaitListen then (s\<lparr>setup_at := SetupDone, listening := False\<rparr>, []) else (s, []))"
| "startExec_step sessionId containerId s (Emitted payload) =
     (s, if active s then [OnData payload] else [])"
| "startExec_step sessionId containerId s (InvokeResolved res) =
     (if setup_at s = AwaitInvoke then (s\<lparr>setup_at := SetupDone\<rparr>, []) else (s, []))"
| "startExec_step sessionId containerId s (InvokeRejected e) =
     (if setup_at s = AwaitInvoke then (s\<lparr>setup_at := SetupDone\<rparr>, []) else (s, []))"
| "startExec_step sessionId containerId s (Write d) =
     (s, if active s then [Invoke (exec_input sessionId d)] else [])"
| "startExec_step sessionId containerId s (Resize w h) = (s, [])"
| "startExec_step sessionId containerId s Dispose =
     (if unlisten s
      then (s\<lparr>active := False, listening := False\<rparr>, [Unlisten, Invoke (stop_exec sessionId)])
      else (s\<lparr>active := False\<rparr>, [Invoke (stop_exec sessionId)]))"
| "startExec_step sessionId containerId s Cancel = (s, [])"

definition startExec ::
  "string \<Rightarrow> real \<Rightarrow> real \<Rightarrow> string \<Rightarrow> string event list \<Rightarrow> session \<times> string action list" where
  "startExec sessionId cols rows containerId events =
     (run_state (startExec_step sessionId containerId) session_init events,
      Listen (''exec-'' @ sessionId)
        # run_trace (startExec_step sessionId containerId) session_init events)"

subsection \<open>pullImage\<close>

text \<open>\<^verbatim>\<open>res.error || "Unknown error"\<close>: an absent or empty string is falsy.\<close>

definition error_or_unknown :: "string option \<Rightarrow> string" where
  "error_or_unknown e = (case e of None \<Rightarrow> ''Unknown error'' | Some m \<Rightarrow> if m = [] then ''Unknown error'' else m)"

text \<open>
  The \<^verbatim>\<open>try\<close> block after the \<^verbatim>\<open>await\<close>, its \<^verbatim>\<open>catch\<close> and its \<^verbatim>\<open>finally\<close>. The caller's
  callbacks are recorded as actions; what they do besides is outside the model, except
  that a callback may throw: \<open>onEnd_throws res\<close> and \<open>onError_throws msg\<close> are \<open>Some e\<close>
  when the call throws a value whose \<^verbatim>\<open>toString()\<close> is \<open>e\<close>. A throw inside \<^verbatim>\<open>try\<close> runs
  \<^verbatim>\<open>catch\<close>, which calls \<^verbatim>\<open>onError\<close>; a throw inside \<^verbatim>\<open>catch\<close> leaves \<^verbatim>\<open>setup\<close> after
  \<^verbatim>\<open>finally\<close>.
\<close>

definition pull_try ::
  "(unit envelope \<Rightarrow> string option) \<Rightarrow> (string \<Rightarrow> string option) \<Rightarrow> unit envelope
     \<Rightarrow> 'p action list \<times> string option" where
  "pull_try onEnd_throws onError_throws res =
     (if success res
      then ([OnEnd res], onEnd_throws res)
      else ([OnError (error_or_unknown (error res))],
            onError_throws (error_or_unknown (error res))))"

definition pull_catch_finally :: "'p action list \<times> string option \<Rightarrow> 'p action list" where
  "pull_catch_finally r =
     (case snd r of
        None \<Rightarrow> fst r @ [Unlisten]
      | Some e \<Rightarrow> fst r @ [OnError e, Unlisten])"

fun pullImage_step ::
  "string \<Rightarrow> string \<Rightarrow> (unit envelope \<Rightarrow> string option) \<Rightarrow> (string \<Rightarrow> string option)
     \<Rightarrow> session \<Rightarrow> 'p event \<Rightarrow> session \<times> 'p action list" where
  "pullImage_step imageName sessionId onEnd_throws onError_throws s ListenResolved =
     (if setup_at s = AwaitListen
      then (if active s
            then (s\<lparr>unlisten := True, setup_at := AwaitInvoke\<rparr>,
                  [Invoke (pull_image imageName sessionId)])
            else (s\<lparr>unlisten := True, setup_at := SetupDone, listening := False\<rparr>, [Unlisten]))
      else (s, []))"
| "pullImage_step imageName sessionId onEnd_throws onError_throws s (ListenRejected e) =
     (if setup_at s = AwaitListen then (s\<lparr>setup_at := SetupDone, listening := False\<rparr>, []) else (s, []))"
| "pullImage_step imageName sessionId onEnd_throws onError_throws s (Emitted payload) =
     (s, if active s then [OnProgress payload] else [])"
| "pullImage_step imageName sessionId onEnd_throws onError_throws s (InvokeResolved res) =
     (if setup_at s = AwaitInvoke
      then (s\<lparr>setup_at := SetupDone, listening := False\<rparr>,
            pull_catch_finally (pull_try onEnd_throws onError_throws res))
      else (s, []))"
| "pullImage_step imageName sessionId onEnd_throws onError_throws s (InvokeRejected e) =
     (if setup_at s = AwaitInvoke
      then (s\<lparr>setup_at := SetupDone, listening := False\<rparr>, [OnError e, Unlisten])
      else (s, []))"
| "pullImage_step imageName sessionId onEnd_throws onError_throws s Cancel =
     (if unlisten s
      then (s\<lparr>active := False, listening := False\<rparr>, [Unlisten, Invoke (stop_pull sessionId)])
      else (s\<lparr>active := False\<rparr>, [Invoke (stop_pull sessionId)]))"
| "pullImage_step imageName sessionId onEnd_throws onError_throws s (Write d) = (s, [])"
| "pullImage_step imageName sessionId onEnd_throws onError_throws s (Resize w h) = (s, [])"
| "pullImage_step imageName sessionId onEnd_throws onError_throws s Dispose = (s, [])"

definition pullImage ::
  "string \<Rightarrow> string \<Rightarrow> (unit envelope \<Rightarrow> string option) \<Rightarrow> (string \<Rightarrow> string option)
     \<Rightarrow> 'p event list \<Rightarrow> session \<times> 'p action list" where
  "pullImage imageName sessionId onEnd_throws onError_throws events =
     (run_state (pullImage_step imageName sessionId onEnd_throws onError_throws) session_init events,
      Listen (''pull-'' @ sessionId)
        # run_trace (pullImage_step imageName sessionId onEnd_throws onError_throws)
            session_init events)"


fun is_payload :: "'p action \<Rightarrow> bool" where
  "is_payload (OnData p) = True"
| "is_payload (OnProgress p) = True"
| "is_payload a = False"

fun is_exec_input :: "'p action \<Rightarrow> bool" where
  "is_exec_input (Invoke (exec_input sid d)) = True"
| "is_exec_input a = False"

fun is_start :: "'p action \<Rightarrow> bool" where
  "is_start (Invoke (start_logs i sid opts)) = True"
| "is_start (Invoke (start_exec sid c)) = True"
| "is_start (Invoke (pull_image i sid)) = True"
| "is_start a = False"

text \<open>The two events that end the wait of \<^verbatim>\<open>await listen(...)\<close>.\<close>

fun listen_settles :: "'p event \<Rightarrow> bool" where
  "listen_settles ListenResolved = True"
| "listen_settles (ListenRejected e) = True"
| "listen_settles ev = False"

text \<open>A callback that returns without throwing, whatever its argument.\<close>

definition returns_normally :: "'a \<Rightarrow> string option" where
  "returns_normally x = None"


section \<open>Properties of the batch statistics\<close>

lemma fold_update_other:
  "x \<notin> k ` set rs \<Longrightarrow> fold (\<lambda>r m. m(k r \<mapsto> f r)) rs m0 x = m0 x"
  by (induction rs arbitrary: m0) auto

lemma fold_update_dom:
  "dom (fold (\<lambda>r m. m(k r \<mapsto> f r)) rs m0) = dom m0 \<union> k ` set rs"
  by (induction rs arbitrary: m0) auto

lemma statsMap_last_wins:
  assumes "res_id res \<notin> res_id ` set post"
  shows "statsMap toFixed2 byteSize (pre @ res # post) (res_id res)
           = Some (statsEntry toFixed2 byteSize res)"
  using assms by (simp add: statsMap_def fold_update_other)

lemma dom_statsMap: "dom (statsMap toFixed2 byteSize rs) = res_id ` set rs"
  by (simp add: statsMap_def fold_update_dom)

lemma fetchAllStats_entry:
  assumes "success result" and "data result = Some (pre @ res # post)"
    and "res_id res \<notin> res_id ` set post"
  shows "fetchAllStats toFixed2 byteSize result allStats (res_id res)
           = Some (statsEntry toFixed2 byteSize res)"
  using assms by (simp add: fetchAllStats_def statsMap_last_wins)

lemma numberCpus_reported:
  "cpu_stats_online_cpus s = Some n \<Longrightarrow> n \<noteq> 0 \<Longrightarrow> numberCpus s = n"
  by (simp add: numberCpus_def js_or_def js_or_num_def)

text \<open>
  C1. For a response of the batch that \<^verbatim>\<open>fetchAllStats\<close> processes (a successful element
  \<open>res\<close> with data \<open>s\<close>, not overwritten by a later element with the same id), the
  \<^verbatim>\<open>cpu\<close> string stored for its container is \<^verbatim>\<open>toFixed(2)\<close> of
  \<open>(cur.cpu_total - prev.cpu_total) / (cur.system_cpu - prev.system_cpu) * cpus * 100\<close>
  followed by \<^verbatim>\<open>%\<close> when both deltas are strictly positive, and of \<open>0\<close> otherwise, in
  which case no division takes place; \<open>cpus\<close> is \<^verbatim>\<open>online_cpus\<close> whenever that is reported
  and not zero.
\<close>

theorem cpu_percentage_reported:
  assumes "success result" and "data result = Some (pre @ res # post)"
    and "res_id res \<notin> res_id ` set post"
    and "success res" and "data res = Some s"
  shows "(\<exists>st. fetchAllStats toFixed2 byteSize result allStats (res_id res) = Some st
            \<and> cpu st = toFixed2
                 (if 0 < cpu_stats_total_usage s - precpu_stats_total_usage s
                     \<and> 0 < cpu_stats_system_cpu_usage s - precpu_stats_system_cpu_usage s
                  then (cpu_stats_total_usage s - precpu_stats_total_usage s)
                         / (cpu_stats_system_cpu_usage s - precpu_stats_system_cpu_usage s)
                         * numberCpus s * 100
                  else 0) @ ''%'')
         \<and> (\<forall>n. cpu_stats_online_cpus s = Some n \<and> n \<noteq> 0 \<longrightarrow> numberCpus s = n)"
proof -
  have "fetchAllStats toFixed2 byteSize result allStats (res_id res)
          = Some (statsEntry toFixed2 byteSize res)"
    using assms(1-3) by (rule fetchAllStats_entry)
  moreover have "cpu (statsEntry toFixed2 byteSize res) = toFixed2 (cpuPercent s) @ ''%''"
    using assms(4,5) by (simp add: statsEntry_def)
  moreover have "cpuPercent s =
      (if 0 < cpu_stats_total_usage s - precpu_stats_total_usage s
          \<and> 0 < cpu_stats_system_cpu_usage s - precpu_stats_system_cpu_usage s
       then (cpu_stats_total_usage s - precpu_stats_total_usage s)
              / (cpu_stats_system_cpu_usage s - precpu_stats_system_cpu_usage s)
              * numberCpus s * 100
       else 0)"
    by (simp add: cpuPercent_def cpuDelta_def systemDelta_def)
  ultimately show ?thesis
    by (simp add: numberCpus_reported)
qed

text \<open>
  The example of the specification: \<open>cur.cpu_total = 200\<close>, \<open>prev.cpu_total = 100\<close>,
  \<open>cur.system = 1200\<close>, \<open>prev.system = 1000\<close> and four CPUs give \<open>200\<close> per cent.
\<close>

theorem cpu_percentage_reported_witness:
  "\<forall>toFixed2 byteSize allStats.
     (\<exists>st. fetchAllStats toFixed2 byteSize
        \<lparr>success = True,
         data = Some [\<lparr>success = True,
           data = Some \<lparr>cpu_stats_total_usage = 200, cpu_stats_system_cpu_usage = 1200,
             cpu_stats_online_cpus = Some 4, precpu_stats_total_usage = 100,
             precpu_stats_percpu_usage = None, precpu_stats_system_cpu_usage = 1000,
             memory_stats_usage = 5000, memory_stats_stats = Some (Some 1000)\<rparr>,
           error = None, res_id = ''c1''\<rparr>],
         error = None\<rparr> allStats ''c1'' = Some st \<and> cpu st = toFixed2 200 @ ''%'')"
proof (intro allI)
  fix toFixed2 byteSize :: "real \<Rightarrow> string" and allStats :: "string \<rightharpoonup> ContainerStats"
  let ?s = "\<lparr>cpu_stats_total_usage = 200, cpu_stats_system_cpu_usage = 1200,
             cpu_stats_online_cpus = Some 4, precpu_stats_total_usage = 100,
             precpu_stats_percpu_usage = None, precpu_stats_system_cpu_usage = 1000,
             memory_stats_usage = 5000, memory_stats_stats = Some (Some 1000)\<rparr>"
  let ?res = "\<lparr>success = True, data = Some ?s, error = None, res_id = ''c1''\<rparr>"
  let ?result = "\<lparr>success = True, data = Some [?res], error = None\<rparr>"
  show "\<exists>st. fetchAllStats toFixed2 byteSize ?result allStats ''c1'' = Some st
          \<and> cpu st = toFixed2 200 @ ''%''"
    using cpu_percentage_reported [of ?result "[]" ?res "[]" ?s toFixed2 byteSize allStats]
    by (simp add: numberCpus_def js_or_def js_or_num_def)
qed


text \<open>
  C6. When \<^verbatim>\<open>online_cpus\<close> is not reported in the current sample (the field is absent,
  or zero, which \<^verbatim>\<open>||\<close> treats alike), the CPU count of the derivation is the number of
  entries of \<^verbatim>\<open>precpu_stats.cpu_usage.percpu_usage\<close>, and it is \<open>1\<close> when that array is
  absent or has no entry.
\<close>

theorem numberCpus_fallback:
  assumes "cpu_stats_online_cpus s = None \<or> cpu_stats_online_cpus s = Some 0"
  shows "numberCpus s =
           (case precpu_stats_percpu_usage s of
              None \<Rightarrow> 1
            | Some xs \<Rightarrow> if xs = [] then 1 else real (length xs))
         \<and> cpuPercent s =
           (if systemDelta s > 0 \<and> cpuDelta s > 0
            then cpuDelta s / systemDelta s
                   * (case precpu_stats_percpu_usage s of
                        None \<Rightarrow> 1
                      | Some xs \<Rightarrow> if xs = [] then 1 else real (length xs)) * 100
            else 0)"
proof -
  have n: "numberCpus s =
           (case precpu_stats_percpu_usage s of
              None \<Rightarrow> 1
            | Some xs \<Rightarrow> if xs = [] then 1 else real (length xs))"
    using assms
    by (auto simp: numberCpus_def js_or_def js_or_num_def opt_length_def split: option.splits)
  show ?thesis
    unfolding cpuPercent_def n [symmetric] using n by simp
qed

theorem numberCpus_fallback_witness:
  "numberCpus \<lparr>cpu_stats_total_usage = 200, cpu_stats_system_cpu_usage = 1200,
      cpu_stats_online_cpus = None, precpu_stats_total_usage = 100,
      precpu_stats_percpu_usage = Some [60, 40], precpu_stats_system_cpu_usage = 1000,
      memory_stats_usage = 5000, memory_stats_stats = None\<rparr> = 2
   \<and> cpuPercent \<lparr>cpu_stats_total_usage = 200, cpu_stats_system_cpu_usage = 1200,
      cpu_stats_online_cpus = None, precpu_stats_total_usage = 100,
      precpu_stats_percpu_usage = Some [60, 40], precpu_stats_system_cpu_usage = 1000,
      memory_stats_usage = 5000, memory_stats_stats = None\<rparr> = 100"
  using numberCpus_fallback [of "\<lparr>cpu_stats_total_usage = 200, cpu_stats_system_cpu_usage = 1200,
      cpu_stats_online_cpus = None, precpu_stats_total_usage = 100,
      precpu_stats_percpu_usage = Some [60, 40], precpu_stats_system_cpu_usage = 1000,
      memory_stats_usage = 5000, memory_stats_stats = None\<rparr>"]
  by (simp add: cpuDelta_def systemDelta_def)

text \<open>
  C7. For a successful element of the batch, the \<^verbatim>\<open>mem\<close> string stored for its
  container is \<^verbatim>\<open>byteSize\<close> of memory usage minus the cache bytes, and the subtrahend
  is \<open>0\<close> when \<^verbatim>\<open>stats\<close> or \<^verbatim>\<open>stats.cache\<close> is absent.
\<close>

theorem memory_excludes_cache:
  assumes "success result" and "data result = Some (pre @ res # post)"
    and "res_id res \<notin> res_id ` set post"
    and "success res" and "data res = Some s"
  shows "\<exists>st. fetchAllStats toFixed2 byteSize result allStats (res_id res) = Some st
           \<and> mem st = byteSize
                (memory_stats_usage s
                   - (case memory_stats_stats s of
                        None \<Rightarrow> 0
                      | Some None \<Rightarrow> 0
                      | Some (Some cache) \<Rightarrow> cache))"
proof -
  have "fetchAllStats toFixed2 byteSize result allStats (res_id res)
          = Some (statsEntry toFixed2 byteSize res)"
    using assms(1-3) by (rule fetchAllStats_entry)
  moreover have "mem (statsEntry toFixed2 byteSize res) = byteSize (memUsage s)"
    using assms(4,5) by (simp add: statsEntry_def)
  moreover have "memUsage s =
      memory_stats_usage s
        - (case memory_stats_stats s of
             None \<Rightarrow> 0
           | Some None \<Rightarrow> 0
           | Some (Some cache) \<Rightarrow> cache)"
    by (simp add: memUsage_def js_or_num_def split: option.splits)
  ultimately show ?thesis by simp
qed

theorem memory_excludes_cache_witness:
  "\<forall>toFixed2 byteSize allStats.
     (\<exists>st. fetchAllStats toFixed2 byteSize
        \<lparr>success = True,
         data = Some [\<lparr>success = True,
           data = Some \<lparr>cpu_stats_total_usage = 200, cpu_stats_system_cpu_usage = 1200,
             cpu_stats_online_cpus = Some 4, precpu_stats_total_usage = 100,
             precpu_stats_percpu_usage = None, precpu_stats_system_cpu_usage = 1000,
             memory_stats_usage = 5000, memory_stats_stats = Some (Some 1000)\<rparr>,
           error = None, res_id = ''c1''\<rparr>],
         error = None\<rparr> allStats ''c1'' = Some st \<and> mem st = byteSize 4000)"
proof (intro allI)
  fix toFixed2 byteSize :: "real \<Rightarrow> string" and allStats :: "string \<rightharpoonup> ContainerStats"
  let ?s = "\<lparr>cpu_stats_total_usage = 200, cpu_stats_system_cpu_usage = 1200,
             cpu_stats_online_cpus = Some 4, precpu_stats_total_usage = 100,
             precpu_stats_percpu_usage = None, precpu_stats_system_cpu_usage = 1000,
             memory_stats_usage = 5000, memory_stats_stats = Some (Some 1000)\<rparr>"
  let ?res = "\<lparr>success = True, data = Some ?s, error = None, res_id = ''c1''\<rparr>"
  let ?result = "\<lparr>success = True, data = Some [?res], error = None\<rparr>"
  show "\<exists>st. fetchAllStats toFixed2 byteSize ?result allStats ''c1'' = Some st
          \<and> mem st = byteSize 4000"
    using memory_excludes_cache [of ?result "[]" ?res "[]" ?s toFixed2 byteSize allStats]
    by simp
qed

lemma get_batch_stats_data:
  "data (get_batch_stats stats ids) = Some (map (\<lambda>i. stats_result i (stats i)) (remdups ids))"
  by (simp add: get_batch_stats_def)

lemma res_id_stats_result: "res_id (stats_result i r) = i"
  by (cases r) (simp_all add: stats_result_def)

lemma success_stats_result: "success (stats_result i r) = (\<exists>s. r = Inr s)"
  by (cases r) (simp_all add: stats_result_def)

text \<open>
  C2. For every list of identifiers, \<^verbatim>\<open>get_batch_stats\<close> succeeds as a whole and returns
  exactly one entry for each distinct identifier of the input; each entry is a success
  or a failure according to the runtime's answer for its own identifier alone, so a
  failure for one identifier changes no other entry; and the hook stores one value for
  each of these identifiers.
\<close>

theorem get_batch_stats_one_entry_per_id:
  "\<exists>rs. success (get_batch_stats stats ids)
      \<and> data (get_batch_stats stats ids) = Some rs
      \<and> distinct (map res_id rs)
      \<and> res_id ` set rs = set ids
      \<and> length rs = card (set ids)
      \<and> (\<forall>r \<in> set rs. r = stats_result (res_id r) (stats (res_id r))
                      \<and> success r = (\<exists>s. stats (res_id r) = Inr s))
      \<and> dom (useBatchContainerStats toFixed2 byteSize (get_batch_stats stats) ids allStats)
          = set ids"
proof -
  let ?rs = "map (\<lambda>i. stats_result i (stats i)) (remdups ids)"
  have ids: "map res_id ?rs = remdups ids"
    by (simp add: res_id_stats_result comp_def)
  have d: "distinct (map res_id ?rs)"
    unfolding ids by simp
  have s: "res_id ` set ?rs = set ids"
    by (simp add: image_image res_id_stats_result)
  have l: "length ?rs = card (set ids)"
    by (simp add: length_remdups_card_conv)
  have e: "\<forall>r \<in> set ?rs. r = stats_result (res_id r) (stats (res_id r))
                      \<and> success r = (\<exists>s. stats (res_id r) = Inr s)"
    by (auto simp: res_id_stats_result success_stats_result)
  have f: "dom (useBatchContainerStats toFixed2 byteSize (get_batch_stats stats) ids allStats)
             = set ids"
    using s
    by (simp add: useBatchContainerStats_def fetchAllStats_def getBatchStats_def
          get_batch_stats_def dom_statsMap)
  have ok: "success (get_batch_stats stats ids)"
    by (simp add: get_batch_stats_def)
  have dat: "data (get_batch_stats stats ids) = Some ?rs"
    by (rule get_batch_stats_data)
  from ok dat d s l e f show ?thesis
    by (intro exI [of _ ?rs] conjI)
qed


text \<open>Five identifiers, two of them unknown to the runtime: five entries, two failed.\<close>

theorem get_batch_stats_one_entry_per_id_witness:
  "\<forall>toFixed2 byteSize allStats.
    (\<exists>rs. data (get_batch_stats
              (\<lambda>i. if i = ''bad1'' \<or> i = ''bad2'' then Inl ''No such container''
                   else Inr \<lparr>cpu_stats_total_usage = 200, cpu_stats_system_cpu_usage = 1200,
                     cpu_stats_online_cpus = Some 4, precpu_stats_total_usage = 100,
                     precpu_stats_percpu_usage = None, precpu_stats_system_cpu_usage = 1000,
                     memory_stats_usage = 5000, memory_stats_stats = None\<rparr>)
              [''a'', ''bad1'', ''b'', ''bad2'', ''c'']) = Some rs
       \<and> length rs = 5
       \<and> map res_id rs = [''a'', ''bad1'', ''b'', ''bad2'', ''c'']
       \<and> map success rs = [True, False, True, False, True])
    \<and> dom (useBatchContainerStats toFixed2 byteSize
         (get_batch_stats
              (\<lambda>i. if i = ''bad1'' \<or> i = ''bad2'' then Inl ''No such container''
                   else Inr \<lparr>cpu_stats_total_usage = 200, cpu_stats_system_cpu_usage = 1200,
                     cpu_stats_online_cpus = Some 4, precpu_stats_total_usage = 100,
                     precpu_stats_percpu_usage = None, precpu_stats_system_cpu_usage = 1000,
                     memory_stats_usage = 5000, memory_stats_stats = None\<rparr>))
              [''a'', ''bad1'', ''b'', ''bad2'', ''c''] allStats)
        = {''a'', ''bad1'', ''b'', ''bad2'', ''c''}"
proof (intro allI)
  fix toFixed2 byteSize :: "real \<Rightarrow> string" and allStats :: "string \<rightharpoonup> ContainerStats"
  let ?stats = "\<lambda>i. if i = ''bad1'' \<or> i = ''bad2'' then Inl ''No such container''
                   else Inr \<lparr>cpu_stats_total_usage = 200, cpu_stats_system_cpu_usage = 1200,
                     cpu_stats_online_cpus = Some 4, precpu_stats_total_usage = 100,
                     precpu_stats_percpu_usage = None, precpu_stats_system_cpu_usage = 1000,
                     memory_stats_usage = 5000, memory_stats_stats = None\<rparr>"
  let ?ids = "[''a'', ''bad1'', ''b'', ''bad2'', ''c'']"
  have ev: "data (get_batch_stats ?stats ?ids)
              = Some (map (\<lambda>i. stats_result i (?stats i)) ?ids)"
    by (simp add: get_batch_stats_def)
  from get_batch_stats_one_entry_per_id [of ?stats ?ids toFixed2 byteSize allStats]
  have "dom (useBatchContainerStats toFixed2 byteSize (get_batch_stats ?stats) ?ids allStats)
          = set ?ids"
    by (elim exE conjE)
  then show "(\<exists>rs. data (get_batch_stats ?stats ?ids) = Some rs
       \<and> length rs = 5
       \<and> map res_id rs = ?ids
       \<and> map success rs = [True, False, True, False, True])
    \<and> dom (useBatchContainerStats toFixed2 byteSize (get_batch_stats ?stats) ?ids allStats)
        = {''a'', ''bad1'', ''b'', ''bad2'', ''c''}"
    unfolding ev by (simp add: stats_result_def)
qed

section \<open>Properties of the command surface\<close>










section \<open>Properties of the exec handle's resize\<close>

text \<open>
  C5. The terminal is resized to 120 by 40 on an attached exec session: the call of
  \<^verbatim>\<open>resize\<close> changes no state and sends nothing to the backend, so the session is as if
  the call had not been made.
\<close>

theorem resize_not_propagated:
  "startExec ''s1'' 80 24 ''c1''
      [ListenResolved, InvokeResolved \<lparr>success = True, data = None, error = None\<rparr>,
       Resize 120 40]
   = startExec ''s1'' 80 24 ''c1''
      [ListenResolved, InvokeResolved \<lparr>success = True, data = None, error = None\<rparr>]
   \<and> snd (startExec ''s1'' 80 24 ''c1''
      [ListenResolved, InvokeResolved \<lparr>success = True, data = None, error = None\<rparr>,
       Resize 120 40])
     = [Listen ''exec-s1'', Invoke (start_exec ''s1'' ''c1'')]"
  by (simp add: startExec_def session_init_def)

section \<open>Properties of the streaming sessions\<close>

subsection \<open>Runs\<close>

lemma run_state_append:
  "run_state step s (xs @ ys) = run_state step (run_state step s xs) ys"
  by (induction xs arbitrary: s) simp_all

lemma run_trace_append:
  "run_trace step s (xs @ ys) = run_trace step s xs @ run_trace step (run_state step s xs) ys"
  by (induction xs arbitrary: s) simp_all

lemma run_state_invariant:
  assumes "P s" and "\<And>s e. P s \<Longrightarrow> e \<in> set es \<Longrightarrow> P (fst (step s e))"
  shows "P (run_state step s es)"
  using assms by (induction es arbitrary: s) simp_all

lemma run_trace_invariant:
  assumes "P s"
    and "\<And>s e. P s \<Longrightarrow> e \<in> set es \<Longrightarrow> P (fst (step s e))"
    and "\<And>s e a. P s \<Longrightarrow> e \<in> set es \<Longrightarrow> a \<in> set (snd (step s e)) \<Longrightarrow> Q a"
  shows "\<forall>a \<in> set (run_trace step s es). Q a"
  using assms
proof (induction es arbitrary: s)
  case Nil
  then show ?case by simp
next
  case (Cons e es)
  have 1: "P (fst (step s e))"
    using Cons.prems(1) Cons.prems(2) [of s e] by simp
  have 2: "\<And>s' e'. P s' \<Longrightarrow> e' \<in> set es \<Longrightarrow> P (fst (step s' e'))"
    using Cons.prems(2) by simp
  have 3: "\<And>s' e' a. P s' \<Longrightarrow> e' \<in> set es \<Longrightarrow> a \<in> set (snd (step s' e')) \<Longrightarrow> Q a"
    using Cons.prems(3) by (meson list.set_intros(2))
  have "\<forall>a \<in> set (run_trace step (fst (step s e)) es). Q a"
    using 1 2 3 by (rule Cons.IH)
  moreover have "\<forall>a \<in> set (snd (step s e)). Q a"
    using Cons.prems(1) Cons.prems(3) [of s e] by simp
  ultimately show ?case by auto
qed


subsection \<open>startExec\<close>

lemma startExec_step_inactive_state:
  "\<not> active s \<Longrightarrow> \<not> active (fst (startExec_step sid cid s e))"
  by (cases e) simp_all

lemma startExec_step_inactive_quiet:
  "\<not> active s \<Longrightarrow> a \<in> set (snd (startExec_step sid cid s e))
     \<Longrightarrow> \<not> is_exec_input a \<and> \<not> is_payload a"
  by (cases e) (auto split: if_splits)

lemma startExec_split:
  "snd (startExec sid c r cid (xs @ ys))
     = snd (startExec sid c r cid xs)
         @ run_trace (startExec_step sid cid) (fst (startExec sid c r cid xs)) ys"
  by (simp add: startExec_def run_trace_append)

text \<open>
  C9. Whatever happened before \<^verbatim>\<open>dispose()\<close> and whatever happens after it, the actions
  after the call of \<^verbatim>\<open>dispose\<close> contain no \<^verbatim>\<open>exec_input\<close> command and no call of
  \<^verbatim>\<open>onData\<close>.
\<close>

theorem exec_dispose_silences:
  "\<exists>rest. snd (startExec sessionId cols rows containerId (before @ Dispose # after))
            = snd (startExec sessionId cols rows containerId (before @ [Dispose])) @ rest
         \<and> (\<forall>a \<in> set rest. \<not> is_exec_input a \<and> \<not> is_payload a)"
proof -
  let ?step = "startExec_step sessionId containerId"
  let ?s = "fst (startExec sessionId cols rows containerId (before @ [Dispose]))"
  have inactive: "\<not> active ?s"
    by (simp add: startExec_def run_state_append)
  have quiet: "\<forall>a \<in> set (run_trace ?step ?s after). \<not> is_exec_input a \<and> \<not> is_payload a"
  proof (rule run_trace_invariant [where P = "\<lambda>s::session. \<not> active s"])
    show "\<not> active ?s" by (fact inactive)
  next
    fix s :: session and e assume "\<not> active s"
    then show "\<not> active (fst (?step s e))" by (rule startExec_step_inactive_state)
  next
    fix s :: session and e a assume "\<not> active s" and "a \<in> set (snd (?step s e))"
    then show "\<not> is_exec_input a \<and> \<not> is_payload a" by (rule startExec_step_inactive_quiet)
  qed
  have split: "snd (startExec sessionId cols rows containerId (before @ Dispose # after))
      = snd (startExec sessionId cols rows containerId (before @ [Dispose]))
          @ run_trace ?step ?s after"
    using startExec_split [of sessionId cols rows containerId "before @ [Dispose]" after]
    by simp
  from split quiet show ?thesis
    by (intro exI [of _ "run_trace ?step ?s after"] conjI)
qed

text \<open>
  A session that wrote and received once, was disposed, and then saw a write, an event
  and a second \<^verbatim>\<open>dispose\<close>.
\<close>

theorem exec_dispose_silences_witness:
  "(\<exists>rest. snd (startExec ''s1'' 80 24 ''c1''
               ([ListenResolved, Write ''ls'', Emitted ''out'']
                  @ Dispose # [Write ''pwd'', Emitted ''late'', Dispose]))
            = snd (startExec ''s1'' 80 24 ''c1''
               ([ListenResolved, Write ''ls'', Emitted ''out''] @ [Dispose])) @ rest
         \<and> (\<forall>a \<in> set rest. \<not> is_exec_input a \<and> \<not> is_payload a))
   \<and> snd (startExec ''s1'' 80 24 ''c1''
               ([ListenResolved, Write ''ls'', Emitted ''out'']
                  @ Dispose # [Write ''pwd'', Emitted ''late'', Dispose]))
     = [Listen ''exec-s1'', Invoke (start_exec ''s1'' ''c1''), Invoke (exec_input ''s1'' ''ls''),
        OnData ''out'', Unlisten, Invoke (stop_exec ''s1''),
        Unlisten, Invoke (stop_exec ''s1'')]"
proof (rule conjI)
  show "\<exists>rest. snd (startExec ''s1'' 80 24 ''c1''
               ([ListenResolved, Write ''ls'', Emitted ''out'']
                  @ Dispose # [Write ''pwd'', Emitted ''late'', Dispose]))
            = snd (startExec ''s1'' 80 24 ''c1''
               ([ListenResolved, Write ''ls'', Emitted ''out''] @ [Dispose])) @ rest
         \<and> (\<forall>a \<in> set rest. \<not> is_exec_input a \<and> \<not> is_payload a)"
    by (rule exec_dispose_silences)
  show "snd (startExec ''s1'' 80 24 ''c1''
               ([ListenResolved, Write ''ls'', Emitted ''out'']
                  @ Dispose # [Write ''pwd'', Emitted ''late'', Dispose]))
     = [Listen ''exec-s1'', Invoke (start_exec ''s1'' ''c1''), Invoke (exec_input ''s1'' ''ls''),
        OnData ''out'', Unlisten, Invoke (stop_exec ''s1''),
        Unlisten, Invoke (stop_exec ''s1'')]"
    by (simp add: startExec_def session_init_def)
qed

subsection \<open>pullImage\<close>

lemma pullImage_step_inactive_state:
  "\<not> active s \<Longrightarrow> \<not> active (fst (pullImage_step i sid f g s e))"
  by (cases e) simp_all

lemma pull_catch_finally_cases:
  "a \<in> set (pull_catch_finally (pull_try f g res)) \<Longrightarrow>
     a = Unlisten \<or> (a = OnEnd res \<and> success res)
       \<or> (a = OnError (error_or_unknown (error res)) \<and> \<not> success res)
       \<or> (\<exists>e. a = OnError e \<and> (f res = Some e \<or> g (error_or_unknown (error res)) = Some e))"
  by (auto simp: pull_catch_finally_def pull_try_def split: if_splits option.splits)

lemma pullImage_step_inactive_quiet:
  "\<not> active s \<Longrightarrow> a \<in> set (snd (pullImage_step i sid f g s e)) \<Longrightarrow> \<not> is_payload a"
  by (cases e) (auto split: if_splits dest!: pull_catch_finally_cases)

lemma pullImage_split:
  "snd (pullImage i sid f g (xs @ ys))
     = snd (pullImage i sid f g xs)
         @ run_trace (pullImage_step i sid f g) (fst (pullImage i sid f g xs)) ys"
  by (simp add: pullImage_def run_trace_append)

text \<open>
  C8. Whatever happened before the cancel function of \<^verbatim>\<open>pullImage\<close> is called and
  whatever happens after it: the call sends \<^verbatim>\<open>stop_pull\<close> with the session's identifier
  to the backend (after \<^verbatim>\<open>unlisten()\<close> when the listener is attached), and no action
  after the call is a call of \<^verbatim>\<open>onProgress\<close>.
\<close>

theorem pull_cancel_stops_progress:
  "\<exists>unl rest.
     snd (pullImage imageName sessionId onEnd_throws onError_throws
            (before @ Cancel # (after :: 'p event list)))
       = snd (pullImage imageName sessionId onEnd_throws onError_throws before)
           @ unl @ [Invoke (stop_pull sessionId)] @ rest
     \<and> (unl = [] \<or> unl = [Unlisten])
     \<and> (\<forall>a \<in> set rest. \<not> is_payload a)"
proof -
  let ?step = "pullImage_step imageName sessionId onEnd_throws onError_throws
                 :: session \<Rightarrow> 'p event \<Rightarrow> session \<times> 'p action list"
  let ?s0 = "fst (pullImage imageName sessionId onEnd_throws onError_throws before)"
  let ?s = "fst (?step ?s0 Cancel)"
  let ?unl = "if unlisten ?s0 then [Unlisten] else []"
  have inactive: "\<not> active ?s"
    by simp
  have quiet: "\<forall>a \<in> set (run_trace ?step ?s after). \<not> is_payload a"
  proof (rule run_trace_invariant [where P = "\<lambda>s::session. \<not> active s"])
    show "\<not> active ?s" by (fact inactive)
  next
    fix s :: session and e :: "'p event" assume "\<not> active s"
    then show "\<not> active (fst (?step s e))" by (rule pullImage_step_inactive_state)
  next
    fix s :: session and e :: "'p event" and a assume "\<not> active s" and "a \<in> set (snd (?step s e))"
    then show "\<not> is_payload a" by (rule pullImage_step_inactive_quiet)
  qed
  have split: "snd (pullImage imageName sessionId onEnd_throws onError_throws (before @ Cancel # after))
      = snd (pullImage imageName sessionId onEnd_throws onError_throws before)
          @ ?unl @ [Invoke (stop_pull sessionId)] @ run_trace ?step ?s after"
    by (simp add: pullImage_split)
  have unl: "?unl = [] \<or> ?unl = [Unlisten]"
    by simp
  from split unl quiet show ?thesis
    by (intro exI [of _ ?unl] exI [of _ "run_trace ?step ?s after"] conjI)
qed


text \<open>
  A pull cancelled after its first progress event; the backend then emits one more
  event and resolves the command with a failure.
\<close>

theorem pull_cancel_stops_progress_witness:
  "(\<exists>unl rest.
     snd (pullImage ''nginx'' ''s1'' returns_normally returns_normally
            ([ListenResolved, Emitted ''10%'']
               @ Cancel # [Emitted ''20%'',
                    InvokeResolved \<lparr>success = False, data = None, error = Some ''cancelled''\<rparr>]))
       = snd (pullImage ''nginx'' ''s1'' returns_normally returns_normally
                [ListenResolved, Emitted ''10%''])
           @ unl @ [Invoke (stop_pull ''s1'')] @ rest
     \<and> (unl = [] \<or> unl = [Unlisten])
     \<and> (\<forall>a \<in> set rest. \<not> is_payload a))
   \<and> snd (pullImage ''nginx'' ''s1'' returns_normally returns_normally
            ([ListenResolved, Emitted ''10%'']
               @ Cancel # [Emitted ''20%'',
                    InvokeResolved \<lparr>success = False, data = None, error = Some ''cancelled''\<rparr>]))
     = [Listen ''pull-s1'', Invoke (pull_image ''nginx'' ''s1''), OnProgress ''10%'',
        Unlisten, Invoke (stop_pull ''s1''), OnError ''cancelled'', Unlisten]"
proof (rule conjI)
  show "\<exists>unl rest.
     snd (pullImage ''nginx'' ''s1'' returns_normally returns_normally
            ([ListenResolved, Emitted ''10%'']
               @ Cancel # [Emitted ''20%'',
                    InvokeResolved \<lparr>success = False, data = None, error = Some ''cancelled''\<rparr>]))
       = snd (pullImage ''nginx'' ''s1'' returns_normally returns_normally
                [ListenResolved, Emitted ''10%''])
           @ unl @ [Invoke (stop_pull ''s1'')] @ rest
     \<and> (unl = [] \<or> unl = [Unlisten])
     \<and> (\<forall>a \<in> set rest. \<not> is_payload a)"
    by (rule pull_cancel_stops_progress)
  show "snd (pullImage ''nginx'' ''s1'' returns_normally returns_normally
            ([ListenResolved, Emitted ''10%'']
               @ Cancel # [Emitted ''20%'',
                    InvokeResolved \<lparr>success = False, data = None, error = Some ''cancelled''\<rparr>]))
     = [Listen ''pull-s1'', Invoke (pull_image ''nginx'' ''s1''), OnProgress ''10%'',
        Unlisten, Invoke (stop_pull ''s1''), OnError ''cancelled'', Unlisten]"
    by (simp add: pullImage_def session_init_def pull_try_def pull_catch_finally_def
          returns_normally_def error_or_unknown_def)
qed








text \<open>
  Why the callbacks are assumed not to throw below: \<^verbatim>\<open>onEnd\<close> is called inside the
  \<^verbatim>\<open>try\<close> block, so when it throws, \<^verbatim>\<open>catch\<close> calls \<^verbatim>\<open>onError\<close> as well.
\<close>

lemma pull_onEnd_throws_then_onError:
  "snd (pullImage ''nginx'' ''s1'' (\<lambda>r. Some ''boom'') returns_normally
          [ListenResolved :: string event,
           InvokeResolved \<lparr>success = True, data = None, error = None\<rparr>])
     = [Listen ''pull-s1'', Invoke (pull_image ''nginx'' ''s1''),
        OnEnd \<lparr>success = True, data = None, error = None\<rparr>, OnError ''boom'', Unlisten]"
  by (simp add: pullImage_def session_init_def pull_try_def pull_catch_finally_def)




subsection \<open>Cancelling before the listener is attached\<close>

lemma cancel_before_attach:
  fixes step :: "session \<Rightarrow> 'p event \<Rightarrow> session \<times> 'p action list"
  assumes waits: "\<And>s e. \<not> listen_settles e \<Longrightarrow> setup_at s = AwaitListen
                    \<Longrightarrow> setup_at (fst (step s e)) = AwaitListen"
    and starts: "\<And>s e a. a \<in> set (snd (step s e)) \<Longrightarrow> is_start a
                    \<Longrightarrow> e = ListenResolved \<and> active s"
    and stays: "\<And>s e. \<not> active s \<Longrightarrow> \<not> active (fst (step s e))"
    and cancels: "\<And>s. \<not> active (fst (step s c))"
    and detaches: "\<And>s. setup_at s = AwaitListen \<Longrightarrow> \<not> active s
                    \<Longrightarrow> snd (step s ListenResolved) = [Unlisten]
                        \<and> \<not> listening (fst (step s ListenResolved))"
    and detached: "\<And>s e. \<not> listening s \<Longrightarrow> \<not> listening (fst (step s e))"
    and c: "\<not> listen_settles c"
    and early: "\<forall>e \<in> set (before @ mid). \<not> listen_settles e"
  shows "(\<forall>a \<in> set (run_trace step session_init (before @ c # after)). \<not> is_start a)
       \<and> run_trace step session_init (before @ c # mid @ [ListenResolved])
           = run_trace step session_init (before @ c # mid) @ [Unlisten]
       \<and> \<not> listening (run_state step session_init (before @ c # mid @ ListenResolved # after))"
proof (intro conjI)
  let ?s1 = "run_state step session_init before"
  let ?s2 = "fst (step ?s1 c)"
  let ?s3 = "run_state step ?s2 mid"
  let ?s4 = "fst (step ?s3 ListenResolved)"
  have before: "\<forall>e \<in> set before. \<not> listen_settles e" and mid: "\<forall>e \<in> set mid. \<not> listen_settles e"
    using early by simp_all
  have s1: "setup_at ?s1 = AwaitListen"
    by (rule run_state_invariant [where P = "\<lambda>s::session. setup_at s = AwaitListen"])
       (simp_all add: session_init_def waits before)
  have s2: "setup_at ?s2 = AwaitListen" "\<not> active ?s2"
    using waits [OF c s1] cancels by simp_all
  have s3a: "setup_at ?s3 = AwaitListen"
    by (rule run_state_invariant [where P = "\<lambda>s::session. setup_at s = AwaitListen"])
       (simp_all add: s2 waits mid)
  have s3b: "\<not> active ?s3"
    by (rule run_state_invariant [where P = "\<lambda>s::session. \<not> active s"])
       (simp_all add: s2 stays)
  have t1: "\<forall>a \<in> set (run_trace step session_init before). \<not> is_start a"
  proof (rule run_trace_invariant [where P = "\<lambda>s::session. True"])
    fix s :: session and e a
    assume e: "e \<in> set before" and a: "a \<in> set (snd (step s e))"
    show "\<not> is_start a"
    proof
      assume "is_start a"
      with a have "e = ListenResolved" using starts by blast
      with e before show False by auto
    qed
  qed simp_all
  have t2: "\<forall>a \<in> set (snd (step ?s1 c)). \<not> is_start a"
  proof (intro ballI notI)
    fix a assume "a \<in> set (snd (step ?s1 c))" and "is_start a"
    then have "c = ListenResolved" using starts by blast
    with c show False by simp
  qed
  have t3: "\<forall>a \<in> set (run_trace step ?s2 after). \<not> is_start a"
  proof (rule run_trace_invariant [where P = "\<lambda>s::session. \<not> active s"])
    show "\<not> active ?s2" by (fact s2(2))
  next
    fix s :: session and e assume "\<not> active s"
    then show "\<not> active (fst (step s e))" by (rule stays)
  next
    fix s :: session and e a
    assume s: "\<not> active s" and a: "a \<in> set (snd (step s e))"
    show "\<not> is_start a"
    proof
      assume "is_start a"
      with a have "active s" using starts by blast
      with s show False by simp
    qed
  qed
  show "\<forall>a \<in> set (run_trace step session_init (before @ c # after)). \<not> is_start a"
    using t1 t2 t3 by (auto simp: run_trace_append)
  have "snd (step ?s3 ListenResolved) = [Unlisten]"
    using detaches [OF s3a s3b] by simp
  then show "run_trace step session_init (before @ c # mid @ [ListenResolved])
           = run_trace step session_init (before @ c # mid) @ [Unlisten]"
    by (simp add: run_trace_append run_state_append)
  have s4: "\<not> listening ?s4"
    using detaches [OF s3a s3b] by simp
  have "\<not> listening (run_state step ?s4 after)"
    by (rule run_state_invariant [where P = "\<lambda>s::session. \<not> listening s"])
       (simp_all add: s4 detached)
  then show "\<not> listening (run_state step session_init (before @ c # mid @ ListenResolved # after))"
    by (simp add: run_state_append)
qed

lemma startLogs_cancel_before_attach:
  assumes "\<forall>e \<in> set (before @ mid). \<not> listen_settles e"
  shows "(\<forall>a \<in> set (snd (startLogs i sid opts (before @ Cancel # after))). \<not> is_start a)
       \<and> snd (startLogs i sid opts (before @ Cancel # mid @ [ListenResolved]))
           = snd (startLogs i sid opts (before @ Cancel # mid)) @ [Unlisten]
       \<and> \<not> listening (fst (startLogs i sid opts (before @ Cancel # mid @ ListenResolved # after)))"
proof -
  let ?step = "startLogs_step i sid opts"
  have "(\<forall>a \<in> set (run_trace ?step session_init (before @ Cancel # after)). \<not> is_start a)
       \<and> run_trace ?step session_init (before @ Cancel # mid @ [ListenResolved])
           = run_trace ?step session_init (before @ Cancel # mid) @ [Unlisten]
       \<and> \<not> listening (run_state ?step session_init (before @ Cancel # mid @ ListenResolved # after))"
  proof (rule cancel_before_attach [where step = ?step and c = Cancel])
    fix s :: session and e :: "string event"
    show "\<not> listen_settles e \<Longrightarrow> setup_at s = AwaitListen
            \<Longrightarrow> setup_at (fst (?step s e)) = AwaitListen"
      by (cases e) simp_all
    show "\<not> active s \<Longrightarrow> \<not> active (fst (?step s e))"
      by (cases e) simp_all
    show "\<not> listening s \<Longrightarrow> \<not> listening (fst (?step s e))"
      by (cases e) simp_all
    show "\<not> active (fst (?step s Cancel))"
      by simp
    show "setup_at s = AwaitListen \<Longrightarrow> \<not> active s
            \<Longrightarrow> snd (?step s ListenResolved) = [Unlisten]
                \<and> \<not> listening (fst (?step s ListenResolved))"
      by simp
    show "\<not> listen_settles (Cancel :: string event)"
      by simp
    show "\<forall>e \<in> set (before @ mid). \<not> listen_settles e"
      by (fact assms)
    fix a :: "string action"
    show "a \<in> set (snd (?step s e)) \<Longrightarrow> is_start a \<Longrightarrow> e = ListenResolved \<and> active s"
      by (cases e) (auto split: if_splits)
  qed
  then show ?thesis
    by (simp add: startLogs_def)
qed


lemma startExec_dispose_before_attach:
  assumes "\<forall>e \<in> set (before @ mid). \<not> listen_settles e"
  shows "(\<forall>a \<in> set (snd (startExec sid cols rows cid (before @ Dispose # after))). \<not> is_start a)
       \<and> snd (startExec sid cols rows cid (before @ Dispose # mid @ [ListenResolved]))
           = snd (startExec sid cols rows cid (before @ Dispose # mid)) @ [Unlisten]
       \<and> \<not> listening (fst (startExec sid cols rows cid
                              (before @ Dispose # mid @ ListenResolved # after)))"
proof -
  let ?step = "startExec_step sid cid"
  have "(\<forall>a \<in> set (run_trace ?step session_init (before @ Dispose # after)). \<not> is_start a)
       \<and> run_trace ?step session_init (before @ Dispose # mid @ [ListenResolved])
           = run_trace ?step session_init (before @ Dispose # mid) @ [Unlisten]
       \<and> \<not> listening (run_state ?step session_init (before @ Dispose # mid @ ListenResolved # after))"
  proof (rule cancel_before_attach [where step = ?step and c = Dispose])
    fix s :: session and e :: "string event"
    show "\<not> listen_settles e \<Longrightarrow> setup_at s = AwaitListen
            \<Longrightarrow> setup_at (fst (?step s e)) = AwaitListen"
      by (cases e) simp_all
    show "\<not> active s \<Longrightarrow> \<not> active (fst (?step s e))"
      by (cases e) simp_all
    show "\<not> listening s \<Longrightarrow> \<not> listening (fst (?step s e))"
      by (cases e) simp_all
    show "\<not> active (fst (?step s Dispose))"
      by simp
    show "setup_at s = AwaitListen \<Longrightarrow> \<not> active s
            \<Longrightarrow> snd (?step s ListenResolved) = [Unlisten]
                \<and> \<not> listening (fst (?step s ListenResolved))"
      by simp
    show "\<not> listen_settles (Dispose :: string event)"
      by simp
    show "\<forall>e \<in> set (before @ mid). \<not> listen_settles e"
      by (fact assms)
    fix a :: "string action"
    show "a \<in> set (snd (?step s e)) \<Longrightarrow> is_start a \<Longrightarrow> e = ListenResolved \<and> active s"
      by (cases e) (auto split: if_splits)
  qed
  then show ?thesis
    by (simp add: startExec_def)
qed

lemma pull_catch_finally_not_start:
  "a \<in> set (pull_catch_finally (pull_try f g res)) \<Longrightarrow> \<not> is_start a"
  by (auto simp: pull_catch_finally_def pull_try_def split: if_splits option.splits)

lemma pullImage_cancel_before_attach:
  fixes before mid after :: "'p event list"
  assumes "\<forall>e \<in> set (before @ mid). \<not> listen_settles e"
  shows "(\<forall>a \<in> set (snd (pullImage i sid f g (before @ Cancel # after))). \<not> is_start a)
       \<and> snd (pullImage i sid f g (before @ Cancel # mid @ [ListenResolved]))
           = snd (pullImage i sid f g (before @ Cancel # mid)) @ [Unlisten]
       \<and> \<not> listening (fst (pullImage i sid f g (before @ Cancel # mid @ ListenResolved # after)))"
proof -
  let ?step = "pullImage_step i sid f g :: session \<Rightarrow> 'p event \<Rightarrow> session \<times> 'p action list"
  have "(\<forall>a \<in> set (run_trace ?step session_init (before @ Cancel # after)). \<not> is_start a)
       \<and> run_trace ?step session_init (before @ Cancel # mid @ [ListenResolved])
           = run_trace ?step session_init (before @ Cancel # mid) @ [Unlisten]
       \<and> \<not> listening (run_state ?step session_init (before @ Cancel # mid @ ListenResolved # after))"
  proof (rule cancel_before_attach [where step = ?step and c = Cancel])
    fix s :: session and e :: "'p event"
    show "\<not> listen_settles e \<Longrightarrow> setup_at s = AwaitListen
            \<Longrightarrow> setup_at (fst (?step s e)) = AwaitListen"
      by (cases e) simp_all
    show "\<not> active s \<Longrightarrow> \<not> active (fst (?step s e))"
      by (cases e) simp_all
    show "\<not> listening s \<Longrightarrow> \<not> listening (fst (?step s e))"
      by (cases e) simp_all
    show "\<not> active (fst (?step s Cancel))"
      by simp
    show "setup_at s = AwaitListen \<Longrightarrow> \<not> active s
            \<Longrightarrow> snd (?step s ListenResolved) = [Unlisten]
                \<and> \<not> listening (fst (?step s ListenResolved))"
      by simp
    show "\<not> listen_settles (Cancel :: 'p event)"
      by simp
    show "\<forall>e \<in> set (before @ mid). \<not> listen_settles e"
      by (fact assms)
    fix a :: "'p action"
    show "a \<in> set (snd (?step s e)) \<Longrightarrow> is_start a \<Longrightarrow> e = ListenResolved \<and> active s"
      by (cases e) (auto split: if_splits dest: pull_catch_finally_not_start)
  qed
  then show ?thesis
    by (simp add: pullImage_def)
qed

text \<open>
  C10. For \<^verbatim>\<open>startLogs\<close>, \<^verbatim>\<open>startExec\<close> and \<^verbatim>\<open>pullImage\<close>: when the cancel function
  (for \<^verbatim>\<open>startExec\<close>, \<^verbatim>\<open>dispose\<close>) is called before the promise of \<^verbatim>\<open>listen\<close> has
  settled, the start command is never sent, whatever happens afterwards; the turn in
  which \<^verbatim>\<open>listen\<close> resolves does nothing but call \<^verbatim>\<open>cleanup()\<close>; and from then on the
  session has no subscription.
\<close>

theorem cancel_before_attach_never_starts:
  fixes before mid after :: "string event list" and pbefore pmid pafter :: "'p event list"
  assumes "\<forall>e \<in> set (before @ mid). \<not> listen_settles e"
    and "\<forall>e \<in> set (pbefore @ pmid). \<not> listen_settles e"
  shows "((\<forall>a \<in> set (snd (startLogs i sid opts (before @ Cancel # after))). \<not> is_start a)
       \<and> snd (startLogs i sid opts (before @ Cancel # mid @ [ListenResolved]))
           = snd (startLogs i sid opts (before @ Cancel # mid)) @ [Unlisten]
       \<and> \<not> listening (fst (startLogs i sid opts (before @ Cancel # mid @ ListenResolved # after))))
     \<and> ((\<forall>a \<in> set (snd (startExec esid cols rows cid (before @ Dispose # after))). \<not> is_start a)
       \<and> snd (startExec esid cols rows cid (before @ Dispose # mid @ [ListenResolved]))
           = snd (startExec esid cols rows cid (before @ Dispose # mid)) @ [Unlisten]
       \<and> \<not> listening (fst (startExec esid cols rows cid
                              (before @ Dispose # mid @ ListenResolved # after))))
     \<and> ((\<forall>a \<in> set (snd (pullImage img psid f g (pbefore @ Cancel # pafter))). \<not> is_start a)
       \<and> snd (pullImage img psid f g (pbefore @ Cancel # pmid @ [ListenResolved]))
           = snd (pullImage img psid f g (pbefore @ Cancel # pmid)) @ [Unlisten]
       \<and> \<not> listening (fst (pullImage img psid f g
                              (pbefore @ Cancel # pmid @ ListenResolved # pafter))))"
  using startLogs_cancel_before_attach [OF assms(1)]
    startExec_dispose_before_attach [OF assms(1)]
    pullImage_cancel_before_attach [OF assms(2)]
  by (intro conjI) blast+

text \<open>
  One session of each kind, cancelled after an early event and before \<^verbatim>\<open>listen\<close>
  resolves.
\<close>

theorem cancel_before_attach_never_starts_witness:
  "snd (startLogs ''c1'' ''s1'' None
          ([Emitted ''early''] @ Cancel # [Emitted ''late''] @ [ListenResolved]))
     = [Listen ''logs-s1'', OnData ''early'', Invoke (stop_logs ''s1''), Unlisten]
   \<and> snd (startExec ''s2'' 80 24 ''c1''
          ([Write ''ls''] @ Dispose # [Emitted ''late''] @ [ListenResolved]))
     = [Listen ''exec-s2'', Invoke (exec_input ''s2'' ''ls''), Invoke (stop_exec ''s2''), Unlisten]
   \<and> snd (pullImage ''nginx'' ''s3'' returns_normally returns_normally
          ([Emitted ''1%''] @ Cancel # [Emitted ''2%''] @ [ListenResolved]))
     = [Listen ''pull-s3'', OnProgress ''1%'', Invoke (stop_pull ''s3''), Unlisten]
   \<and> \<not> listening (fst (startLogs ''c1'' ''s1'' None
          ([Emitted ''early''] @ Cancel # [Emitted ''late''] @ ListenResolved # [Cancel])))"
proof -
  have h1: "\<forall>e \<in> set ([Emitted ''early''] @ [Emitted ''late'']). \<not> listen_settles e"
    by simp
  have h2: "\<forall>e \<in> set ([Emitted ''1%''] @ [Emitted ''2%'']). \<not> listen_settles e"
    by simp
  have "\<not> listening (fst (startLogs ''c1'' ''s1'' None
          ([Emitted ''early''] @ Cancel # [Emitted ''late''] @ ListenResolved # [Cancel])))"
    by (rule cancel_before_attach_never_starts
          [OF h1 h2, THEN conjunct1, THEN conjunct2, THEN conjunct2])
  moreover have "snd (startLogs ''c1'' ''s1'' None
          ([Emitted ''early''] @ Cancel # [Emitted ''late''] @ [ListenResolved]))
     = [Listen ''logs-s1'', OnData ''early'', Invoke (stop_logs ''s1''), Unlisten]"
    by (simp add: startLogs_def session_init_def)
  moreover have "snd (startExec ''s2'' 80 24 ''c1''
          ([Write ''ls''] @ Dispose # [Emitted ''late''] @ [ListenResolved]))
     = [Listen ''exec-s2'', Invoke (exec_input ''s2'' ''ls''), Invoke (stop_exec ''s2''), Unlisten]"
    by (simp add: startExec_def session_init_def)
  moreover have "snd (pullImage ''nginx'' ''s3'' returns_normally returns_normally
          ([Emitted ''1%''] @ Cancel # [Emitted ''2%''] @ [ListenResolved]))
     = [Listen ''pull-s3'', OnProgress ''1%'', Invoke (stop_pull ''s3''), Unlisten]"
    by (simp add: pullImage_def session_init_def)
  ultimately show ?thesis
    by (intro conjI)
qed

end
